theory Spec2Isabelle
  imports Main "HOL-Library.Sublist" "HOL-Library.Word"
begin

section \<open>Smart Room Controller: data model\<close>

text \<open>
  The firmware of \<^verbatim>\<open>project1.c\<close> keeps three flags and a 20-byte command buffer in
  globals, reads bytes from UART1 and drives GPIO port B and a character LCD.

  The globals become a record. The flags are \<^verbatim>\<open>unsigned short\<close>; only the constants
  0 and 1 are ever assigned to them and no arithmetic is done on them, so their width
  plays no role (16 bits are taken here). A C \<^verbatim>\<open>char\<close> is an 8-bit \<^typ>\<open>char\<close>.

  The peripherals are not part of the program text: every call of a library routine
  and every write to a peripheral register is recorded, in program order, as an event
  in the field \<open>out\<close>. The bytes that will still arrive on UART1 are the field \<open>rx\<close>.
\<close>

type_synonym ushort = "16 word"

datatype lcd_command = LCD_CLEAR | LCD_CURSOR_OFF

datatype event =
    UART1_Init nat
  | UART1_Write char
  | Delay_ms nat
  | Lcd_Init
  | Lcd_Cmd lcd_command
  | Lcd_Out nat nat string
  | Set_Field string string nat
  | GPIOB_ODR_B nat ushort

record state =
  light1 :: ushort
  fan :: ushort
  ac :: ushort
  cmd :: "char list"
  rx :: "char list"
  out :: "event list"

text \<open>Globals are zero-initialised; \<^verbatim>\<open>char cmd[20]\<close> has 20 bytes.\<close>

definition init :: state where
  "init = \<lparr>light1 = 0, fan = 0, ac = 0, cmd = replicate 20 (CHR 0x00), rx = [], out = []\<rparr>"

definition emit :: "event list \<Rightarrow> state \<Rightarrow> state" where
  "emit es s = s\<lparr>out := out s @ es\<rparr>"

section \<open>C strings\<close>

text \<open>
  The string held by a character array is the bytes before its first zero byte.
  \<open>strstr\<close> is the C library routine: it returns a pointer to the first occurrence of
  the needle in the haystack (here: the rest of the haystack from that occurrence on),
  or the null pointer (here: \<open>None\<close>).
\<close>

definition cstr :: "char list \<Rightarrow> string" where
  "cstr buf = takeWhile (\<lambda>c. c \<noteq> CHR 0x00) buf"

fun strstr :: "string \<Rightarrow> string \<Rightarrow> string option" where
  "strstr [] n = (if n = [] then Some [] else None)"
| "strstr (h # hs) n = (if prefix n (h # hs) then Some (h # hs) else strstr hs n)"

section \<open>The command matcher and the state renderer\<close>

definition ParseCommand :: "state \<Rightarrow> state" where
  "ParseCommand s =
     (if      strstr (cstr (cmd s)) ''LIGHT1 ON''  \<noteq> None then s\<lparr>light1 := 1\<rparr>
      else if strstr (cstr (cmd s)) ''LIGHT1 OFF'' \<noteq> None then s\<lparr>light1 := 0\<rparr>
      else if strstr (cstr (cmd s)) ''FAN ON''     \<noteq> None then s\<lparr>fan := 1\<rparr>
      else if strstr (cstr (cmd s)) ''FAN OFF''    \<noteq> None then s\<lparr>fan := 0\<rparr>
      else if strstr (cstr (cmd s)) ''AC ON''      \<noteq> None then s\<lparr>ac := 1\<rparr>
      else if strstr (cstr (cmd s)) ''AC OFF''     \<noteq> None then s\<lparr>ac := 0\<rparr>
      else emit [Lcd_Cmd LCD_CLEAR,
                 Lcd_Out 1 1 ''Unknown Cmd:'',
                 Lcd_Out 2 1 (cstr (cmd s)),
                 Delay_ms 1500] s)"

definition UpdateOutputsAndLCD :: "state \<Rightarrow> state" where
  "UpdateOutputsAndLCD s =
     emit [GPIOB_ODR_B 0 (light1 s),
           GPIOB_ODR_B 1 (fan s),
           GPIOB_ODR_B 2 (ac s),
           Lcd_Cmd LCD_CLEAR,
           Lcd_Out 1 1 ''L1:'',
           (if light1 s \<noteq> 0 then Lcd_Out 1 4 ''ON '' else Lcd_Out 1 4 ''OFF''),
           Lcd_Out 1 9 ''F:'',
           (if fan s \<noteq> 0 then Lcd_Out 1 11 ''ON '' else Lcd_Out 1 11 ''OFF''),
           Lcd_Out 2 1 ''AC:'',
           (if ac s \<noteq> 0 then Lcd_Out 2 4 ''ON '' else Lcd_Out 2 4 ''OFF'')] s"

definition Config_GPIO_System :: "state \<Rightarrow> state" where
  "Config_GPIO_System s =
     emit [Set_Field ''RCC_APB2ENR'' ''IOPAEN'' 1,
           Set_Field ''RCC_APB2ENR'' ''IOPBEN'' 1,
           Set_Field ''RCC_APB2ENR'' ''AFIOEN'' 1,
           Set_Field ''GPIOB_CRL'' ''MODE0'' 2, Set_Field ''GPIOB_CRL'' ''CNF0'' 0,
           Set_Field ''GPIOB_CRL'' ''MODE1'' 2, Set_Field ''GPIOB_CRL'' ''CNF1'' 0,
           Set_Field ''GPIOB_CRL'' ''MODE2'' 2, Set_Field ''GPIOB_CRL'' ''CNF2'' 0,
           GPIOB_ODR_B 0 0,
           GPIOB_ODR_B 1 0,
           GPIOB_ODR_B 2 0,
           Set_Field ''GPIOA_CRL'' ''MODE0'' 2, Set_Field ''GPIOA_CRL'' ''CNF0'' 0,
           Set_Field ''GPIOA_CRL'' ''MODE1'' 2, Set_Field ''GPIOA_CRL'' ''CNF1'' 0,
           Set_Field ''GPIOA_CRL'' ''MODE4'' 2, Set_Field ''GPIOA_CRL'' ''CNF4'' 0,
           Set_Field ''GPIOA_CRL'' ''MODE5'' 2, Set_Field ''GPIOA_CRL'' ''CNF5'' 0,
           Set_Field ''GPIOA_CRL'' ''MODE6'' 2, Set_Field ''GPIOA_CRL'' ''CNF6'' 0,
           Set_Field ''GPIOA_CRL'' ''MODE7'' 2, Set_Field ''GPIOA_CRL'' ''CNF7'' 0,
           Set_Field ''GPIOA_CRH'' ''MODE9'' 2,
           Set_Field ''GPIOA_CRH'' ''CNF9'' 2,
           Set_Field ''GPIOA_CRH'' ''MODE10'' 0,
           Set_Field ''GPIOA_CRH'' ''CNF10'' 1] s"

section \<open>The line reader and the main loop\<close>

text \<open>
  The program never returns: it stops making progress only when it waits for a byte
  that never arrives (\<open>Blocked\<close>, with the state it waits in). A store outside the
  array \<open>cmd\<close> is undefined in C; the model makes it a second way to stop
  (\<open>OutOfBounds\<close>, with the offending index), so that its absence is a theorem and
  not an assumption.
\<close>

datatype stop = Blocked state | OutOfBounds nat

definition store_cmd :: "nat \<Rightarrow> char \<Rightarrow> state \<Rightarrow> stop + state" where
  "store_cmd i c s =
     (if i < length (cmd s) then Inr (s\<lparr>cmd := (cmd s)[i := c]\<rparr>)
      else Inl (OutOfBounds i))"

text \<open>
  The inner \<^verbatim>\<open>while(i < 19)\<close>: wait for a byte, read it, echo it, leave at a
  carriage return or line feed, otherwise store it and advance.
\<close>

function read_loop :: "nat \<Rightarrow> state \<Rightarrow> stop + (nat \<times> state)" where
  "read_loop i s =
     (if i < 19 then
        (case rx s of
           [] \<Rightarrow> Inl (Blocked s)
         | tmp # rest \<Rightarrow>
             (let s1 = emit [UART1_Write tmp] (s\<lparr>rx := rest\<rparr>) in
              if tmp = CHR 0x0D \<or> tmp = CHR 0x0A then Inr (i, s1)
              else (case store_cmd i tmp s1 of
                      Inl e \<Rightarrow> Inl e
                    | Inr s2 \<Rightarrow> read_loop (i + 1) s2)))
      else Inr (i, s))"
  by pat_completeness auto
termination
  by (relation "measure (\<lambda>(i, s). 19 - i)") auto

text \<open>
  Lines 69 to 89 of \<^verbatim>\<open>main\<close>: \<^verbatim>\<open>i = 0\<close>, \<^verbatim>\<open>memset(cmd, 0, 20)\<close> (the whole
  array), the inner loop, and \<^verbatim>\<open>cmd[i] = 0\<close>.
\<close>

definition read_line :: "state \<Rightarrow> stop + (nat \<times> state)" where
  "read_line s =
     (case read_loop 0 (s\<lparr>cmd := replicate 20 (CHR 0x00)\<rparr>) of
        Inl e \<Rightarrow> Inl e
      | Inr (i, s1) \<Rightarrow>
          (case store_cmd i (CHR 0x00) s1 of
             Inl e \<Rightarrow> Inl e
           | Inr s2 \<Rightarrow> Inr (i, s2)))"

text \<open>One pass through the body of \<^verbatim>\<open>while(1)\<close>.\<close>

definition loop_body :: "state \<Rightarrow> stop + state" where
  "loop_body s =
     (case read_line s of
        Inl e \<Rightarrow> Inl e
      | Inr (i, s2) \<Rightarrow>
          Inr (if 0 < i then UpdateOutputsAndLCD (ParseCommand s2) else s2))"

text \<open>
  The \<^verbatim>\<open>while(1)\<close> of \<^verbatim>\<open>main\<close>. It has no exit; on a finite input it ends by
  waiting for a byte, and the result is the way the program stopped. Every pass that
  completes has consumed at least one byte, which is why the recursion is well founded.
\<close>

function main_loop :: "state \<Rightarrow> stop" where
  "main_loop s = (case loop_body s of Inl e \<Rightarrow> e | Inr s' \<Rightarrow> main_loop s')"
  by pat_completeness auto
termination
proof (relation "measure (\<lambda>s. length (rx s))")
  show "wf (measure (\<lambda>s. length (rx s)))" by simp
next
  fix s s'
  assume b: "loop_body s = Inr s'"
  have mono: "read_loop i t = Inr (j, t') \<Longrightarrow>
      length (rx t') \<le> length (rx t) \<and> (i < 19 \<longrightarrow> length (rx t') < length (rx t))" for i j t t'
  proof (induction i t rule: read_loop.induct)
    case (1 i t)
    show ?case
    proof (cases "i < 19")
      case False
      with 1(2) show ?thesis by simp
    next
      case True
      with 1(2) obtain tmp rest where c: "rx t = tmp # rest"
        by (cases "rx t") auto
      show ?thesis
      proof (cases "tmp = CHR 0x0D \<or> tmp = CHR 0x0A")
        case t: True
        with True c 1(2) show ?thesis by (auto simp: emit_def)
      next
        case f: False
        with True c 1(2) obtain t2 where
          st: "store_cmd i tmp (emit [UART1_Write tmp] (t\<lparr>rx := rest\<rparr>)) = Inr t2"
          and r: "read_loop (i + 1) t2 = Inr (j, t')"
          by (auto split: sum.splits)
        from st have "rx t2 = rest"
          by (auto simp: store_cmd_def emit_def split: if_splits)
        with 1(1)[OF True c refl f st r] c show ?thesis by simp
      qed
    qed
  qed
  from b obtain i s1 s2 where
    rl: "read_loop 0 (s\<lparr>cmd := replicate 20 (CHR 0x00)\<rparr>) = Inr (i, s1)"
    and st: "store_cmd i (CHR 0x00) s1 = Inr s2"
    and s': "s' = (if 0 < i then UpdateOutputsAndLCD (ParseCommand s2) else s2)"
    by (auto simp: loop_body_def read_line_def split: sum.splits prod.splits)
  from st have "rx s2 = rx s1"
    by (auto simp: store_cmd_def split: if_splits)
  moreover have "rx (UpdateOutputsAndLCD (ParseCommand t)) = rx t" for t
    by (simp add: UpdateOutputsAndLCD_def ParseCommand_def emit_def)
  ultimately have "rx s' = rx s1" using s' by simp
  with mono[OF rl] show "(s', s) \<in> measure (\<lambda>s. length (rx s))" by simp
qed

text \<open>
  \<^verbatim>\<open>main\<close>, run on the bytes that arrive on UART1: configuration, the start-up
  screen, a first rendering of the state, then the loop.
\<close>

definition main :: "char list \<Rightarrow> stop" where
  "main input =
     main_loop
       (UpdateOutputsAndLCD
          (emit [UART1_Init 9600,
                 Delay_ms 100,
                 Lcd_Init,
                 Lcd_Cmd LCD_CLEAR,
                 Lcd_Cmd LCD_CURSOR_OFF,
                 Lcd_Out 1 1 ''Smart Room Ctrl'',
                 Lcd_Out 2 1 ''System Ready...'',
                 Delay_ms 1000]
             (Config_GPIO_System (init\<lparr>rx := input\<rparr>))))"

section \<open>Vocabulary of the specification\<close>

text \<open>
  The definitions of this section do not come from the program. They say, in the
  words of the specification, what the program is compared with.
\<close>

text \<open>The six literal commands, in the order in which they are checked, each with the
  flag it names and the value it asks for.\<close>

datatype device = Light1 | Fan | AC

definition commands :: "(string \<times> device \<times> ushort) list" where
  "commands =
     [(''LIGHT1 ON'',  Light1, 1),
      (''LIGHT1 OFF'', Light1, 0),
      (''FAN ON'',     Fan,    1),
      (''FAN OFF'',    Fan,    0),
      (''AC ON'',      AC,     1),
      (''AC OFF'',     AC,     0)]"

fun flag :: "device \<Rightarrow> state \<Rightarrow> ushort" where
  "flag Light1 s = light1 s"
| "flag Fan s = fan s"
| "flag AC s = ac s"

fun set_flag :: "device \<Rightarrow> ushort \<Rightarrow> state \<Rightarrow> state" where
  "set_flag Light1 v s = s\<lparr>light1 := v\<rparr>"
| "set_flag Fan v s = s\<lparr>fan := v\<rparr>"
| "set_flag AC v s = s\<lparr>ac := v\<rparr>"

fun device_name :: "device \<Rightarrow> string" where
  "device_name Light1 = ''LIGHT1''"
| "device_name Fan = ''FAN''"
| "device_name AC = ''AC''"

text \<open>The commands that occur in a line as a substring, in check order.\<close>

definition occurring :: "string \<Rightarrow> (string \<times> device \<times> ushort) list" where
  "occurring line = filter (\<lambda>(p, d, v). sublist p line) commands"

text \<open>The command a line is matched to: the first one that occurs in it.\<close>

definition matched :: "string \<Rightarrow> (string \<times> device \<times> ushort) option" where
  "matched line = (case occurring line of [] \<Rightarrow> None | c # _ \<Rightarrow> Some c)"

text \<open>The values asked for by the matched commands of one kind, oldest first, and the
  value a flag must have after a sequence of lines, from a given start value.\<close>

definition history :: "device \<Rightarrow> string list \<Rightarrow> ushort list" where
  "history d lines =
     concat (map (\<lambda>l. case matched l of
                         None \<Rightarrow> []
                       | Some (p, d', v) \<Rightarrow> if d' = d then [v] else []) lines)"

definition reflect :: "device \<Rightarrow> ushort \<Rightarrow> string list \<Rightarrow> ushort" where
  "reflect d v0 lines = (if history d lines = [] then v0 else last (history d lines))"

text \<open>A line terminator is a carriage return or a line feed.\<close>

definition is_term :: "char \<Rightarrow> bool" where
  "is_term c = (c = CHR 0x0D \<or> c = CHR 0x0A)"

text \<open>
  The state after the reader has taken \<open>n\<close> bytes from the link and has put the
  bytes \<open>bs\<close> into the buffer from index \<open>i\<close> on: every byte taken has been echoed.
\<close>

definition received :: "nat \<Rightarrow> char list \<Rightarrow> nat \<Rightarrow> state \<Rightarrow> state" where
  "received i bs n s =
     s\<lparr>cmd := take i (cmd s) @ bs @ drop (i + length bs) (cmd s),
       rx := drop n (rx s),
       out := out s @ map UART1_Write (take n (rx s))\<rparr>"

text \<open>
  The lines a byte sequence is cut into: each line ends before the first terminator
  or after 19 bytes, whichever comes first; bytes after the last complete line are
  no line.
\<close>

function lines_read :: "char list \<Rightarrow> char list list" where
  "lines_read xs =
     (if 19 \<le> length (takeWhile (\<lambda>c. \<not> is_term c) xs)
        then take 19 xs # lines_read (drop 19 xs)
      else if length (takeWhile (\<lambda>c. \<not> is_term c) xs) < length xs
        then takeWhile (\<lambda>c. \<not> is_term c) xs
               # lines_read (drop (length (takeWhile (\<lambda>c. \<not> is_term c) xs) + 1) xs)
      else [])"
  by pat_completeness auto
termination
proof (relation "measure length")
  show "wf (measure length)" by simp
next
  fix xs :: "char list"
  assume "19 \<le> length (takeWhile (\<lambda>c. \<not> is_term c) xs)"
  moreover have "length (takeWhile (\<lambda>c. \<not> is_term c) xs) \<le> length xs"
    by (rule length_takeWhile_le)
  ultimately show "(drop 19 xs, xs) \<in> measure length" by simp
next
  fix xs :: "char list"
  assume "length (takeWhile (\<lambda>c. \<not> is_term c) xs) < length xs"
  then show "(drop (length (takeWhile (\<lambda>c. \<not> is_term c) xs) + 1) xs, xs) \<in> measure length"
    by simp
qed

text \<open>The bytes written to the serial link, in order.\<close>

fun uart_written :: "event list \<Rightarrow> char list" where
  "uart_written [] = []"
| "uart_written (UART1_Write c # es) = c # uart_written es"
| "uart_written (_ # es) = uart_written es"

section \<open>Auxiliary facts\<close>

lemma strstr_sublist: "strstr h n \<noteq> None \<longleftrightarrow> sublist n h"
  by (induction h) (auto simp: sublist_Cons_right)

lemma take_Suc_update: "i < length c \<Longrightarrow> take (Suc i) (c[i := x]) = take i c @ [x]"
  by (simp add: take_Suc_conv_app_nth)

text \<open>What the inner loop does, entered at index \<open>i\<close> with a buffer of at least 19
  bytes: it never stores out of bounds.\<close>

lemma read_loop_spec:
  "i \<le> 19 \<Longrightarrow> 19 \<le> length (cmd s) \<Longrightarrow>
   read_loop i s =
     (let l = takeWhile (\<lambda>c. \<not> is_term c) (rx s) in
      if 19 - i \<le> length l then Inr (19, received i (take (19 - i) l) (19 - i) s)
      else if length l < length (rx s) then Inr (i + length l, received i l (length l + 1) s)
      else Inl (Blocked (received i l (length l) s)))"
proof (induction i s rule: read_loop.induct)
  case (1 i s)
  show ?case
  proof (cases "i < 19")
    case False
    with 1(2) have "i = 19" by simp
    then show ?thesis by (simp add: received_def)
  next
    case lt: True
    show ?thesis
    proof (cases "rx s")
      case Nil
      with lt show ?thesis by (simp add: received_def)
    next
      case (Cons tmp rest)
      show ?thesis
      proof (cases "is_term tmp")
        case True
        with lt Cons show ?thesis
          by (auto simp add: received_def emit_def is_term_def)
      next
        case False
        define s2 where "s2 = (emit [UART1_Write tmp] (s\<lparr>rx := rest\<rparr>))\<lparr>cmd := (cmd s)[i := tmp]\<rparr>"
        have st: "store_cmd i tmp (emit [UART1_Write tmp] (s\<lparr>rx := rest\<rparr>)) = Inr s2"
          using lt 1(3) by (simp add: store_cmd_def emit_def s2_def)
        have IH: "read_loop (i + 1) s2 =
          (let l = takeWhile (\<lambda>c. \<not> is_term c) (rx s2) in
           if 19 - (i + 1) \<le> length l
             then Inr (19, received (i + 1) (take (19 - (i + 1)) l) (19 - (i + 1)) s2)
           else if length l < length (rx s2)
             then Inr (i + 1 + length l, received (i + 1) l (length l + 1) s2)
           else Inl (Blocked (received (i + 1) l (length l) s2)))"
          using 1(1)[OF lt Cons refl _ st] False lt 1(3)
          by (simp add: is_term_def s2_def emit_def)
        have rl: "read_loop i s = read_loop (i + 1) s2"
          using lt Cons False st by (simp add: is_term_def)
        have r: "received (Suc i) bs n s2 = received i (tmp # bs) (Suc n) s" for bs n
          using lt 1(3) Cons by (simp add: received_def s2_def emit_def take_Suc_update)
        have rx2: "rx s2 = rest" by (simp add: s2_def emit_def)
        have d: "19 - i = Suc (18 - i)" using lt by simp
        show ?thesis
          unfolding rl IH using False lt Cons
          by (auto simp add: Let_def r rx2 d)
      qed
    qed
  qed
qed

declare read_loop.simps [simp del] lines_read.simps [simp del] main_loop.simps [simp del]

lemma cstr_padded: "cstr (bs @ replicate k (CHR 0x00)) = cstr bs"
  by (induction bs) (simp_all add: cstr_def takeWhile_replicate)

lemma store_terminator:
  "length bs \<le> 19 \<Longrightarrow>
   store_cmd (length bs) (CHR 0x00) (received 0 bs n (s\<lparr>cmd := replicate 20 (CHR 0x00)\<rparr>)) =
     Inr (s\<lparr>cmd := bs @ replicate (20 - length bs) (CHR 0x00),
            rx := drop n (rx s),
            out := out s @ map UART1_Write (take n (rx s))\<rparr>)"
  by (simp add: store_cmd_def received_def list_update_same_conv nth_append)

text \<open>The closed form of one run of the line reader.\<close>

lemma read_line_closed:
  "read_line s =
     (let l = takeWhile (\<lambda>c. \<not> is_term c) (rx s);
          stored = take 19 l;
          taken = (if 19 \<le> length l then 19 else length l + 1);
          s' = s\<lparr>cmd := stored @ replicate (20 - length stored) (CHR 0x00),
                 rx := drop taken (rx s),
                 out := out s @ map UART1_Write (take taken (rx s))\<rparr>
      in if 19 \<le> length l \<or> length l < length (rx s) then Inr (length stored, s')
         else Inl (Blocked s'))"
proof -
  let ?l = "takeWhile (\<lambda>c. \<not> is_term c) (rx s)"
  let ?s0 = "s\<lparr>cmd := replicate 20 (CHR 0x00)\<rparr>"
  have le: "length ?l \<le> length (rx s)" by (rule length_takeWhile_le)
  have rl: "read_loop 0 ?s0 =
      (if 19 \<le> length ?l then Inr (19, received 0 (take 19 ?l) 19 ?s0)
       else if length ?l < length (rx s) then Inr (length ?l, received 0 ?l (length ?l + 1) ?s0)
       else Inl (Blocked (received 0 ?l (length ?l) ?s0)))"
    using read_loop_spec[of 0 ?s0] by (simp add: Let_def)
  show ?thesis
  proof (cases "19 \<le> length ?l")
    case True
    then have len: "length (take 19 ?l) = 19" by simp
    have "store_cmd 19 (CHR 0x00) (received 0 (take 19 ?l) 19 ?s0) =
      Inr (s\<lparr>cmd := take 19 ?l @ replicate (20 - length (take 19 ?l)) (CHR 0x00),
            rx := drop 19 (rx s),
            out := out s @ map UART1_Write (take 19 (rx s))\<rparr>)"
      using store_terminator[of "take 19 ?l" 19 s] len by simp
    with True rl show ?thesis
      by (simp add: read_line_def Let_def)
  next
    case False
    then have t: "take 19 ?l = ?l" by simp
    show ?thesis
    proof (cases "length ?l < length (rx s)")
      case True
      have "store_cmd (length ?l) (CHR 0x00) (received 0 ?l (length ?l + 1) ?s0) =
        Inr (s\<lparr>cmd := ?l @ replicate (20 - length ?l) (CHR 0x00),
            rx := drop (length ?l + 1) (rx s),
            out := out s @ map UART1_Write (take (length ?l + 1) (rx s))\<rparr>)"
        using store_terminator[of ?l "length ?l + 1" s] False by simp
      with True False rl show ?thesis
        by (simp add: read_line_def Let_def t)
    next
      case f2: False
      with le have eq: "length (rx s) = length ?l" by simp
      have "received 0 ?l (length ?l) ?s0 =
         s\<lparr>cmd := ?l @ replicate (20 - length ?l) (CHR 0x00),
            rx := drop (length ?l + 1) (rx s),
            out := out s @ map UART1_Write (take (length ?l + 1) (rx s))\<rparr>"
        using False eq by (simp add: received_def)
      with f2 False rl show ?thesis
        by (simp add: read_line_def Let_def t)
    qed
  qed
qed

text \<open>The matcher, with \<open>strstr\<close> read as substring search.\<close>

lemma ParseCommand_sublist:
  "ParseCommand s =
     (if      sublist ''LIGHT1 ON''  (cstr (cmd s)) then s\<lparr>light1 := 1\<rparr>
      else if sublist ''LIGHT1 OFF'' (cstr (cmd s)) then s\<lparr>light1 := 0\<rparr>
      else if sublist ''FAN ON''     (cstr (cmd s)) then s\<lparr>fan := 1\<rparr>
      else if sublist ''FAN OFF''    (cstr (cmd s)) then s\<lparr>fan := 0\<rparr>
      else if sublist ''AC ON''      (cstr (cmd s)) then s\<lparr>ac := 1\<rparr>
      else if sublist ''AC OFF''     (cstr (cmd s)) then s\<lparr>ac := 0\<rparr>
      else emit [Lcd_Cmd LCD_CLEAR,
                 Lcd_Out 1 1 ''Unknown Cmd:'',
                 Lcd_Out 2 1 (cstr (cmd s)),
                 Delay_ms 1500] s)"
  by (simp only: ParseCommand_def strstr_sublist)

lemma ParseCommand_matched:
  "ParseCommand s =
     (case matched (cstr (cmd s)) of
        None \<Rightarrow> emit [Lcd_Cmd LCD_CLEAR, Lcd_Out 1 1 ''Unknown Cmd:'',
                      Lcd_Out 2 1 (cstr (cmd s)), Delay_ms 1500] s
      | Some (p, d, v) \<Rightarrow> set_flag d v s)"
  by (simp add: ParseCommand_sublist matched_def occurring_def commands_def)

lemma flag_set_flag: "flag d' (set_flag d v s) = (if d' = d then v else flag d' s)"
  by (cases d; cases d') simp_all

lemma flag_emit: "flag d (emit es s) = flag d s"
  by (cases d) (simp_all add: emit_def)

lemma occurring_matched: "occurring line = c # rest \<Longrightarrow> matched line = Some c"
  by (simp add: matched_def)

lemma occurring_commands: "occurring line = c # rest \<Longrightarrow> c \<in> set commands"
  by (metis filter_is_subset list.set_intros(1) occurring_def subsetD)

lemma uart_written_append: "uart_written (xs @ ys) = uart_written xs @ uart_written ys"
  by (induction xs rule: uart_written.induct) simp_all

lemma uart_written_echo: "uart_written (map UART1_Write bs) = bs"
  by (induction bs) simp_all

lemma reflect_Nil: "reflect d v0 [] = v0"
  by (simp add: reflect_def history_def)

lemma reflect_single:
  "reflect d v0 [l] = (case matched l of None \<Rightarrow> v0 | Some (p, d', v) \<Rightarrow> if d' = d then v else v0)"
  by (simp add: reflect_def history_def split: option.splits)

lemma reflect_Cons: "reflect d v0 (l # ls) = reflect d (reflect d v0 [l]) ls"
  by (simp add: reflect_def history_def split: option.splits)

lemma matched_Nil: "matched [] = None"
  by (simp add: matched_def occurring_def commands_def)

text \<open>Parsing and rendering a line: what changes and what is emitted.\<close>

lemma parse_render:
  "rx (UpdateOutputsAndLCD (ParseCommand t)) = rx t
   \<and> flag d (UpdateOutputsAndLCD (ParseCommand t)) = reflect d (flag d t) [cstr (cmd t)]
   \<and> (\<exists>es. out (UpdateOutputsAndLCD (ParseCommand t)) = out t @ es \<and> uart_written es = [])"
proof -
  have 1: "rx (UpdateOutputsAndLCD (ParseCommand t)) = rx t"
    by (simp add: UpdateOutputsAndLCD_def ParseCommand_def emit_def)
  have 2: "flag d (UpdateOutputsAndLCD (ParseCommand t)) = reflect d (flag d t) [cstr (cmd t)]"
    by (simp add: UpdateOutputsAndLCD_def flag_emit ParseCommand_matched reflect_single
          flag_set_flag split: option.splits)
  have "\<exists>es. out (ParseCommand t) = out t @ es \<and> uart_written es = []"
    by (simp add: ParseCommand_def emit_def)
  then obtain es where es: "out (ParseCommand t) = out t @ es" "uart_written es = []"
    by blast
  have "\<exists>es'. out (UpdateOutputsAndLCD u) = out u @ es' \<and> uart_written es' = []" for u
    by (simp add: UpdateOutputsAndLCD_def emit_def)
  then obtain es' where es': "out (UpdateOutputsAndLCD (ParseCommand t)) = out (ParseCommand t) @ es'"
     "uart_written es' = []"
    by blast
  from es es' have "out (UpdateOutputsAndLCD (ParseCommand t)) = out t @ (es @ es')
     \<and> uart_written (es @ es') = []"
    by (simp add: uart_written_append)
  then have 3: "\<exists>es. out (UpdateOutputsAndLCD (ParseCommand t)) = out t @ es \<and> uart_written es = []"
    by blast
  from 1 2 3 show ?thesis by simp
qed

text \<open>One pass of the loop, by the line structure of the pending input.\<close>

lemma loop_body_blocks:
  assumes "lines_read (rx s) = []"
  shows "\<exists>s'. loop_body s = Inl (Blocked s') \<and> rx s' = []
           \<and> out s' = out s @ map UART1_Write (rx s) \<and> (\<forall>d. flag d s' = flag d s)"
proof -
  let ?l = "takeWhile (\<lambda>c. \<not> is_term c) (rx s)"
  from assms have c: "\<not> 19 \<le> length ?l" "\<not> length ?l < length (rx s)"
    by (auto simp add: lines_read.simps[of "rx s"] split: if_splits)
  have fl: "flag d (t\<lparr>cmd := c, rx := r, out := out'\<rparr>) = flag d t" for d c r out' t
    by (cases d) simp_all
  from c show ?thesis
    by (simp add: loop_body_def read_line_closed Let_def fl)
qed

lemma loop_body_steps:
  assumes "lines_read (rx s) = line # ls"
  shows "\<exists>s' n. loop_body s = Inr s' \<and> lines_read (rx s') = ls
           \<and> 0 < n \<and> n \<le> length (rx s) \<and> rx s' = drop n (rx s)
           \<and> (\<exists>es. out s' = out s @ map UART1_Write (take n (rx s)) @ es \<and> uart_written es = [])
           \<and> (\<forall>d. flag d s' = reflect d (flag d s) [cstr line])"
proof -
  let ?l = "takeWhile (\<lambda>c. \<not> is_term c) (rx s)"
  define n where "n = (if 19 \<le> length ?l then 19 else length ?l + 1)"
  define s1 where "s1 = s\<lparr>cmd := take 19 ?l @ replicate (20 - length (take 19 ?l)) (CHR 0x00),
                 rx := drop n (rx s),
                 out := out s @ map UART1_Write (take n (rx s))\<rparr>"
  have le: "length ?l \<le> length (rx s)" by (rule length_takeWhile_le)
  from assms have c: "19 \<le> length ?l \<or> length ?l < length (rx s)"
    by (auto simp add: lines_read.simps[of "rx s"] split: if_splits)
  have tk: "19 \<le> length ?l \<Longrightarrow> take 19 (rx s) = take 19 ?l"
    by (metis append_eq_conv_conj append_take_drop_id takeWhile_dropWhile_id take_append
          diff_is_0_eq take_0 append_Nil2 length_take min.absorb2 take_all_iff)
  from assms have line: "line = take 19 ?l" and ls: "ls = lines_read (drop n (rx s))"
    by (auto simp add: lines_read.simps[of "rx s"] n_def tk split: if_splits)
  have rl: "read_line s = Inr (length line, s1)"
    using c by (simp add: read_line_closed Let_def s1_def n_def line)
  have cs: "cstr (cmd s1) = cstr line"
    by (simp add: s1_def line cstr_padded)
  have fl: "flag d s1 = flag d s" for d
    by (cases d) (simp_all add: s1_def)
  define s' where "s' = (if 0 < length line then UpdateOutputsAndLCD (ParseCommand s1) else s1)"
  have lb: "loop_body s = Inr s'"
    by (simp add: loop_body_def rl s'_def)
  have rx': "rx s' = drop n (rx s)"
    using parse_render[of s1] by (simp add: s'_def s1_def)
  have n: "0 < n" "n \<le> length (rx s)"
    using c le by (auto simp add: n_def)
  have o: "\<exists>es. out s' = out s @ map UART1_Write (take n (rx s)) @ es \<and> uart_written es = []"
  proof (cases "0 < length line")
    case True
    with parse_render[of s1] show ?thesis by (auto simp add: s'_def s1_def)
  next
    case False
    then show ?thesis by (simp add: s'_def s1_def)
  qed
  have f: "flag d s' = reflect d (flag d s) [cstr line]" for d
  proof (cases "0 < length line")
    case True
    with parse_render[of s1 d] show ?thesis by (simp add: s'_def cs fl)
  next
    case False
    then show ?thesis by (simp add: s'_def fl reflect_single cstr_def matched_Nil)
  qed
  have ls': "lines_read (rx s') = ls" by (simp only: rx' ls)
  have "loop_body s = Inr s' \<and> lines_read (rx s') = ls
           \<and> 0 < n \<and> n \<le> length (rx s) \<and> rx s' = drop n (rx s)
           \<and> (\<exists>es. out s' = out s @ map UART1_Write (take n (rx s)) @ es \<and> uart_written es = [])
           \<and> (\<forall>d. flag d s' = reflect d (flag d s) [cstr line])"
    using lb ls' n rx' o f by blast
  then show ?thesis by blast
qed

text \<open>The whole run: the program ends waiting, with every byte consumed and echoed.\<close>

lemma main_loop_run:
  "\<exists>s'. main_loop s = Blocked s' \<and> rx s' = []
        \<and> uart_written (out s') = uart_written (out s) @ rx s
        \<and> (\<forall>d. flag d s' = reflect d (flag d s) (map cstr (lines_read (rx s))))"
proof (induction ls \<equiv> "lines_read (rx s)" arbitrary: s)
  case Nil
  from loop_body_blocks[OF Nil[symmetric]] obtain s' where
    "loop_body s = Inl (Blocked s')" "rx s' = []" "out s' = out s @ map UART1_Write (rx s)"
    "\<forall>d. flag d s' = flag d s" by blast
  with Nil[symmetric] show ?case
    by (simp add: main_loop.simps[of s] uart_written_append uart_written_echo reflect_Nil)
next
  case (Cons line ls)
  from loop_body_steps[OF Cons(2)[symmetric]] obtain s1 n es where
    lb: "loop_body s = Inr s1" and ls: "lines_read (rx s1) = ls"
    and n: "0 < n" "n \<le> length (rx s)" and rx1: "rx s1 = drop n (rx s)"
    and o: "out s1 = out s @ map UART1_Write (take n (rx s)) @ es" "uart_written es = []"
    and f: "\<forall>d. flag d s1 = reflect d (flag d s) [cstr line]"
    by blast
  from Cons(1)[OF ls[symmetric]] obtain s' where
    m: "main_loop s1 = Blocked s'" "rx s' = []"
       "uart_written (out s') = uart_written (out s1) @ rx s1"
       "\<forall>d. flag d s' = reflect d (flag d s1) (map cstr (lines_read (rx s1)))"
    by blast
  have "main_loop s = Blocked s'"
    using lb m(1) by (simp add: main_loop.simps[of s])
  moreover have "uart_written (out s') = uart_written (out s) @ rx s"
    using m(3) o rx1 by (simp add: uart_written_append uart_written_echo)
  moreover have "\<forall>d. flag d s' = reflect d (flag d s) (map cstr (lines_read (rx s)))"
  proof
    fix d
    have "flag d s' = reflect d (reflect d (flag d s) [cstr line]) (map cstr ls)"
      using m(4) f ls by simp
    also have "\<dots> = reflect d (flag d s) (cstr line # map cstr ls)"
      by (rule reflect_Cons[symmetric])
    finally show "flag d s' = reflect d (flag d s) (map cstr (lines_read (rx s)))"
      using Cons(2)[symmetric] by simp
  qed
  ultimately show ?case using m(2) by blast
qed

text \<open>The start of \<^verbatim>\<open>main\<close>: nothing is written to the link and no flag is set
  before the loop is entered.\<close>

lemma main_start:
  "\<exists>s0. main input = main_loop s0 \<and> rx s0 = input \<and> uart_written (out s0) = []
        \<and> (\<forall>d. flag d s0 = 0)"
proof -
  let ?s0 = "UpdateOutputsAndLCD
          (emit [UART1_Init 9600, Delay_ms 100, Lcd_Init, Lcd_Cmd LCD_CLEAR,
                 Lcd_Cmd LCD_CURSOR_OFF, Lcd_Out 1 1 ''Smart Room Ctrl'',
                 Lcd_Out 2 1 ''System Ready...'', Delay_ms 1000]
             (Config_GPIO_System (init\<lparr>rx := input\<rparr>)))"
  have 1: "main input = main_loop ?s0" by (simp add: main_def)
  have 2: "rx ?s0 = input"
    by (simp add: UpdateOutputsAndLCD_def emit_def Config_GPIO_System_def)
  have 3: "uart_written (out ?s0) = []"
    by (simp add: UpdateOutputsAndLCD_def emit_def Config_GPIO_System_def init_def)
  have 4: "flag d ?s0 = 0" for d
    by (cases d) (simp_all add: UpdateOutputsAndLCD_def emit_def Config_GPIO_System_def init_def)
  from 1 2 3 4 show ?thesis by blast
qed

section \<open>The claims\<close>

text \<open>
  C1. The matcher searches the line (the string held by \<open>cmd\<close>) for the six literal
  commands as substrings. When exactly one of them occurs in the line, the flag that
  command names has afterwards the value the command asks for: 1 for the command
  ending in ON, 0 for the one ending in OFF.
\<close>

theorem ParseCommand_single_match:
  "occurring (cstr (cmd s)) = [(p, d, v)] \<Longrightarrow>
   flag d (ParseCommand s) = v
   \<and> ((p = device_name d @ '' ON'' \<and> v = 1) \<or> (p = device_name d @ '' OFF'' \<and> v = 0))"
proof -
  assume o: "occurring (cstr (cmd s)) = [(p, d, v)]"
  from occurring_matched[OF o] have "flag d (ParseCommand s) = v"
    by (simp add: ParseCommand_matched flag_set_flag)
  moreover from occurring_commands[OF o]
  have "(p = device_name d @ '' ON'' \<and> v = 1) \<or> (p = device_name d @ '' OFF'' \<and> v = 0)"
    by (auto simp add: commands_def)
  ultimately show ?thesis by simp
qed

theorem ParseCommand_single_match_witness:
  "occurring (cstr (cmd (init\<lparr>cmd := ''FAN ON'' @ replicate 14 (CHR 0x00)\<rparr>))) = [(''FAN ON'', Fan, 1)]
   \<and> fan (ParseCommand (init\<lparr>cmd := ''FAN ON'' @ replicate 14 (CHR 0x00)\<rparr>)) = 1"
proof -
  let ?s = "init\<lparr>cmd := ''FAN ON'' @ replicate 14 (CHR 0x00)\<rparr>"
  have c: "cstr (cmd ?s) = ''FAN ON''" by (simp add: cstr_def)
  have h: "occurring (cstr (cmd ?s)) = [(''FAN ON'', Fan, 1)]"
    unfolding c by (simp add: occurring_def commands_def sublist_code)
  from ParseCommand_single_match[OF h] h show ?thesis by simp
qed

text \<open>
  C2. From the start of the program, with all three flags 0, and for every sequence
  of bytes that arrives: when the input is used up, each flag holds the value asked
  for by the latest line that was matched to a command of its kind (1 for ON, 0 for
  OFF), and 0 if no line was matched to a command of its kind. The lines are those
  the reader delivers, and a line is matched to the first command, in check order,
  that occurs in it.
\<close>

theorem flags_reflect_last_match:
  "\<exists>s'. main input = Blocked s'
     \<and> light1 s' = reflect Light1 0 (map cstr (lines_read input))
     \<and> fan s' = reflect Fan 0 (map cstr (lines_read input))
     \<and> ac s' = reflect AC 0 (map cstr (lines_read input))"
proof -
  from main_start[of input] obtain s0 where
    s0: "main input = main_loop s0" "rx s0 = input" "\<forall>d. flag d s0 = 0"
    by blast
  from main_loop_run[of s0] obtain s' where
    r: "main_loop s0 = Blocked s'"
       "\<forall>d. flag d s' = reflect d (flag d s0) (map cstr (lines_read (rx s0)))"
    by blast
  from r(2) s0 have "\<forall>d. flag d s' = reflect d 0 (map cstr (lines_read input))" by simp
  from this[rule_format, of Light1] this[rule_format, of Fan] this[rule_format, of AC] r(1) s0(1)
  show ?thesis by simp
qed

theorem flags_reflect_last_match_witness:
  "lines_read (''LIGHT1 ON'' @ [CHR 0x0D] @ ''FAN ON'' @ [CHR 0x0A] @ ''xyz'' @ [CHR 0x0D]
                 @ ''LIGHT1 OFF'' @ [CHR 0x0D])
     = [''LIGHT1 ON'', ''FAN ON'', ''xyz'', ''LIGHT1 OFF'']
   \<and> (\<exists>s'. main (''LIGHT1 ON'' @ [CHR 0x0D] @ ''FAN ON'' @ [CHR 0x0A] @ ''xyz'' @ [CHR 0x0D]
                 @ ''LIGHT1 OFF'' @ [CHR 0x0D]) = Blocked s'
          \<and> light1 s' = 0 \<and> fan s' = 1 \<and> ac s' = 0)"
proof -
  let ?input = "''LIGHT1 ON'' @ [CHR 0x0D] @ ''FAN ON'' @ [CHR 0x0A] @ ''xyz'' @ [CHR 0x0D]
                 @ ''LIGHT1 OFF'' @ [CHR 0x0D]"
  have l: "lines_read ?input = [''LIGHT1 ON'', ''FAN ON'', ''xyz'', ''LIGHT1 OFF'']"
    by code_simp
  have a: "reflect Light1 0 (map cstr [''LIGHT1 ON'', ''FAN ON'', ''xyz'', ''LIGHT1 OFF'']) = 0"
    by code_simp
  have b: "reflect Fan 0 (map cstr [''LIGHT1 ON'', ''FAN ON'', ''xyz'', ''LIGHT1 OFF'']) = 1"
    by code_simp
  have c: "reflect AC 0 (map cstr [''LIGHT1 ON'', ''FAN ON'', ''xyz'', ''LIGHT1 OFF'']) = 0"
    by code_simp
  from flags_reflect_last_match[of ?input] show ?thesis
    unfolding l a b c by simp
qed

text \<open>
  C3. When none of the six commands occurs in the line, the matcher leaves the three
  flags, the buffer and the pending input as they are; all it does is clear the
  display, write \<open>Unknown Cmd:\<close> on row 1 and the line on row 2, and hold that for
  1500 ms.
\<close>

theorem ParseCommand_unknown:
  "occurring (cstr (cmd s)) = [] \<Longrightarrow>
   light1 (ParseCommand s) = light1 s \<and> fan (ParseCommand s) = fan s \<and> ac (ParseCommand s) = ac s
   \<and> cmd (ParseCommand s) = cmd s \<and> rx (ParseCommand s) = rx s
   \<and> out (ParseCommand s) =
       out s @ [Lcd_Cmd LCD_CLEAR, Lcd_Out 1 1 ''Unknown Cmd:'',
                Lcd_Out 2 1 (cstr (cmd s)), Delay_ms 1500]"
  by (simp add: ParseCommand_matched matched_def emit_def)

theorem ParseCommand_unknown_witness:
  "occurring (cstr (cmd (init\<lparr>cmd := ''HELLO'' @ replicate 15 (CHR 0x00), fan := 1\<rparr>))) = []
   \<and> light1 (ParseCommand (init\<lparr>cmd := ''HELLO'' @ replicate 15 (CHR 0x00), fan := 1\<rparr>)) = 0
   \<and> fan (ParseCommand (init\<lparr>cmd := ''HELLO'' @ replicate 15 (CHR 0x00), fan := 1\<rparr>)) = 1
   \<and> ac (ParseCommand (init\<lparr>cmd := ''HELLO'' @ replicate 15 (CHR 0x00), fan := 1\<rparr>)) = 0
   \<and> out (ParseCommand (init\<lparr>cmd := ''HELLO'' @ replicate 15 (CHR 0x00), fan := 1\<rparr>)) =
       [Lcd_Cmd LCD_CLEAR, Lcd_Out 1 1 ''Unknown Cmd:'', Lcd_Out 2 1 ''HELLO'', Delay_ms 1500]"
proof -
  let ?s = "init\<lparr>cmd := ''HELLO'' @ replicate 15 (CHR 0x00), fan := 1\<rparr>"
  have c: "cstr (cmd ?s) = ''HELLO''" by (simp add: cstr_def)
  have h: "occurring (cstr (cmd ?s)) = []"
    unfolding c by (simp add: occurring_def commands_def sublist_code)
  from ParseCommand_unknown[OF h] h show ?thesis
    unfolding c by (simp add: init_def)
qed

text \<open>
  C4. One run of the line reader, whatever the buffer held before: the buffer is
  cleared, then the received bytes are stored in order up to the first carriage
  return or line feed, or until 19 bytes are stored, whichever comes first. A
  terminator is consumed and echoed but not stored. The index returned is the number
  of bytes stored, the byte at that index is zero, and the buffer has its 20 bytes, so
  it holds a null-terminated string. The reader waits for ever exactly when the input
  ends before a terminator and before the 19th byte.
\<close>

theorem read_line_spec:
  "read_line s =
     (let l = takeWhile (\<lambda>c. \<not> is_term c) (rx s);
          stored = take 19 l;
          taken = (if 19 \<le> length l then 19 else length l + 1);
          s' = s\<lparr>cmd := stored @ replicate (20 - length stored) (CHR 0x00),
                 rx := drop taken (rx s),
                 out := out s @ map UART1_Write (take taken (rx s))\<rparr>
      in if 19 \<le> length l \<or> length l < length (rx s) then Inr (length stored, s')
         else Inl (Blocked s'))
   \<and> (\<forall>i s'. read_line s = Inr (i, s') \<longrightarrow>
          i \<le> 19 \<and> length (cmd s') = 20 \<and> cmd s' ! i = CHR 0x00
          \<and> take i (cmd s') = take i (rx s) \<and> (\<forall>c \<in> set (take i (cmd s')). \<not> is_term c)
          \<and> cstr (cmd s') = cstr (take i (rx s)))"
proof -
  define st where "st = take 19 (takeWhile (\<lambda>c. \<not> is_term c) (rx s))"
  have nt: "\<forall>c \<in> set st. \<not> is_term c"
    unfolding st_def by (auto dest!: in_set_takeD set_takeWhileD)
  have len: "length st \<le> 19"
    unfolding st_def by simp
  have pre: "take (length st) (rx s) = st"
    unfolding st_def
    by (metis append_eq_conv_conj append_take_drop_id takeWhile_dropWhile_id append.assoc)
  have "\<forall>i s'. read_line s = Inr (i, s') \<longrightarrow>
          i \<le> 19 \<and> length (cmd s') = 20 \<and> cmd s' ! i = CHR 0x00
          \<and> take i (cmd s') = take i (rx s) \<and> (\<forall>c \<in> set (take i (cmd s')). \<not> is_term c)
          \<and> cstr (cmd s') = cstr (take i (rx s))"
  proof (intro allI impI)
    fix i s'
    assume "read_line s = Inr (i, s')"
    then have "i = length st \<and> cmd s' = st @ replicate (20 - length st) (CHR 0x00)"
      unfolding st_def by (auto simp add: read_line_closed Let_def split: if_splits)
    then have i: "i = length st" and c: "cmd s' = st @ replicate (20 - length st) (CHR 0x00)"
      by simp_all
    have tk: "take i (cmd s') = st" using i c by simp
    have z: "cmd s' ! i = CHR 0x00" using i c len by (simp add: nth_append)
    have l: "length (cmd s') = 20" using c len by simp
    have cs: "cstr (cmd s') = cstr (take i (rx s))"
      unfolding c i pre by (rule cstr_padded)
    from i len tk z l cs nt pre
    show "i \<le> 19 \<and> length (cmd s') = 20 \<and> cmd s' ! i = CHR 0x00
          \<and> take i (cmd s') = take i (rx s) \<and> (\<forall>c \<in> set (take i (cmd s')). \<not> is_term c)
          \<and> cstr (cmd s') = cstr (take i (rx s))"
      by simp
  qed
  with read_line_closed[of s] show ?thesis by blast
qed

theorem read_line_spec_witness:
  "read_line (init\<lparr>rx := ''FAN ON'' @ [CHR 0x0D] @ ''X'', cmd := ''0123456789ABCDEFGHIJ''\<rparr>) =
     Inr (6, init\<lparr>rx := ''X'', cmd := ''FAN ON'' @ replicate 14 (CHR 0x00),
                  out := map UART1_Write (''FAN ON'' @ [CHR 0x0D])\<rparr>)
   \<and> read_line (init\<lparr>rx := ''0123456789ABCDEFGHIJKLMNOP''\<rparr>) =
     Inr (19, init\<lparr>rx := ''JKLMNOP'', cmd := ''0123456789ABCDEFGHI'' @ [CHR 0x00],
                  out := map UART1_Write ''0123456789ABCDEFGHI''\<rparr>)
   \<and> read_line (init\<lparr>rx := ''FAN''\<rparr>) =
     Inl (Blocked (init\<lparr>rx := [], cmd := ''FAN'' @ replicate 17 (CHR 0x00),
                  out := map UART1_Write ''FAN''\<rparr>))"
  using read_line_spec[of "init\<lparr>rx := ''FAN ON'' @ [CHR 0x0D] @ ''X'', cmd := ''0123456789ABCDEFGHIJ''\<rparr>"]
        read_line_spec[of "init\<lparr>rx := ''0123456789ABCDEFGHIJKLMNOP''\<rparr>"]
        read_line_spec[of "init\<lparr>rx := ''FAN''\<rparr>"]
  by (simp add: Let_def is_term_def init_def)

text \<open>
  C5, as the program has it. Each pass of the main loop reads a line first. If at
  least one byte was stored, \<open>ParseCommand\<close> runs on the state the reader left, then
  \<open>UpdateOutputsAndLCD\<close> on the state the matcher left, and the next pass starts
  from there. If no byte was stored (an empty line), neither of them runs and the
  next pass starts from the state the reader left.
\<close>

theorem loop_body_order:
  "read_line s = Inr (i, s1) \<Longrightarrow>
   (0 < i \<longrightarrow> loop_body s = Inr (UpdateOutputsAndLCD (ParseCommand s1))
              \<and> main_loop s = main_loop (UpdateOutputsAndLCD (ParseCommand s1)))
   \<and> (i = 0 \<longrightarrow> loop_body s = Inr s1 \<and> main_loop s = main_loop s1)"
  by (simp add: loop_body_def main_loop.simps[of s])

theorem loop_body_order_witness:
  "read_line (init\<lparr>rx := ''FAN ON'' @ [CHR 0x0D]\<rparr>)
     = Inr (6, init\<lparr>cmd := ''FAN ON'' @ replicate 14 (CHR 0x00),
                   out := map UART1_Write (''FAN ON'' @ [CHR 0x0D])\<rparr>)
   \<and> loop_body (init\<lparr>rx := ''FAN ON'' @ [CHR 0x0D]\<rparr>)
     = Inr (UpdateOutputsAndLCD (ParseCommand
             (init\<lparr>cmd := ''FAN ON'' @ replicate 14 (CHR 0x00),
                   out := map UART1_Write (''FAN ON'' @ [CHR 0x0D])\<rparr>)))
   \<and> read_line (init\<lparr>rx := [CHR 0x0A]\<rparr>) = Inr (0, init\<lparr>out := [UART1_Write (CHR 0x0A)]\<rparr>)
   \<and> loop_body (init\<lparr>rx := [CHR 0x0A]\<rparr>) = Inr (init\<lparr>out := [UART1_Write (CHR 0x0A)]\<rparr>)"
proof -
  have a: "read_line (init\<lparr>rx := ''FAN ON'' @ [CHR 0x0D]\<rparr>)
     = Inr (6, init\<lparr>cmd := ''FAN ON'' @ replicate 14 (CHR 0x00),
                   out := map UART1_Write (''FAN ON'' @ [CHR 0x0D])\<rparr>)"
    by (simp add: read_line_closed Let_def is_term_def init_def)
  have b: "read_line (init\<lparr>rx := [CHR 0x0A]\<rparr>) = Inr (0, init\<lparr>out := [UART1_Write (CHR 0x0A)]\<rparr>)"
    by (simp add: read_line_closed Let_def is_term_def init_def)
  from loop_body_order[OF a] loop_body_order[OF b] a b show ?thesis by simp
qed

text \<open>
  An empty line: a lone carriage return is read and echoed, the pass ends in the
  state the reader left, and that is not the state parsing and rendering would give.
\<close>

theorem empty_line_is_not_parsed:
  "read_line (init\<lparr>rx := [CHR 0x0D]\<rparr>) = Inr (0, init\<lparr>out := [UART1_Write (CHR 0x0D)]\<rparr>)
   \<and> loop_body (init\<lparr>rx := [CHR 0x0D]\<rparr>) = Inr (init\<lparr>out := [UART1_Write (CHR 0x0D)]\<rparr>)
   \<and> loop_body (init\<lparr>rx := [CHR 0x0D]\<rparr>)
       \<noteq> Inr (UpdateOutputsAndLCD (ParseCommand (init\<lparr>out := [UART1_Write (CHR 0x0D)]\<rparr>)))"
  by (simp add: loop_body_def read_line_closed Let_def is_term_def init_def
        UpdateOutputsAndLCD_def ParseCommand_sublist cstr_def emit_def)

text \<open>
  C6. A flag whose value the matcher changes is the flag named by the command the
  line was matched to, so the other two flags keep their values; the line reader
  (whether it returns a line or waits for ever) and the renderer change no flag.
\<close>

theorem flags_frame:
  "(flag d (ParseCommand s) \<noteq> flag d s \<longrightarrow> (\<exists>p v. matched (cstr (cmd s)) = Some (p, d, v)))
   \<and> (\<forall>i s'. read_line s = Inr (i, s') \<longrightarrow> flag d s' = flag d s)
   \<and> (\<forall>s'. read_line s = Inl (Blocked s') \<longrightarrow> flag d s' = flag d s)
   \<and> flag d (UpdateOutputsAndLCD s) = flag d s"
proof -
  have a: "flag d (ParseCommand s) \<noteq> flag d s \<longrightarrow> (\<exists>p v. matched (cstr (cmd s)) = Some (p, d, v))"
    by (auto simp add: ParseCommand_matched flag_set_flag flag_emit split: option.splits if_splits)
  have r: "flag d (t\<lparr>cmd := c, rx := r, out := out'\<rparr>) = flag d t" for c r out' t
    by (cases d) simp_all
  have b: "\<forall>i s'. read_line s = Inr (i, s') \<longrightarrow> flag d s' = flag d s"
    by (auto simp add: read_line_closed Let_def r split: if_splits)
  have c: "\<forall>s'. read_line s = Inl (Blocked s') \<longrightarrow> flag d s' = flag d s"
    by (auto simp add: read_line_closed Let_def r split: if_splits)
  have u: "flag d (UpdateOutputsAndLCD s) = flag d s"
    by (simp add: UpdateOutputsAndLCD_def flag_emit)
  from a b c u show ?thesis by blast
qed

theorem flags_frame_witness:
  "flag Fan (ParseCommand (init\<lparr>cmd := ''FAN ON'' @ replicate 14 (CHR 0x00)\<rparr>))
     \<noteq> flag Fan (init\<lparr>cmd := ''FAN ON'' @ replicate 14 (CHR 0x00)\<rparr>)
   \<and> (\<exists>p v. matched (cstr (cmd (init\<lparr>cmd := ''FAN ON'' @ replicate 14 (CHR 0x00)\<rparr>)))
               = Some (p, Fan, v))
   \<and> read_line (init\<lparr>fan := 1, rx := ''AB'' @ [CHR 0x0D]\<rparr>)
       = Inr (2, init\<lparr>fan := 1, cmd := ''AB'' @ replicate 18 (CHR 0x00),
                      out := map UART1_Write (''AB'' @ [CHR 0x0D])\<rparr>)
   \<and> flag Fan (init\<lparr>fan := 1, cmd := ''AB'' @ replicate 18 (CHR 0x00),
                      out := map UART1_Write (''AB'' @ [CHR 0x0D])\<rparr>)
       = flag Fan (init\<lparr>fan := 1, rx := ''AB'' @ [CHR 0x0D]\<rparr>)
   \<and> read_line (init\<lparr>ac := 1, rx := ''AB''\<rparr>)
       = Inl (Blocked (init\<lparr>ac := 1, cmd := ''AB'' @ replicate 18 (CHR 0x00),
                      out := map UART1_Write ''AB''\<rparr>))
   \<and> flag AC (init\<lparr>ac := 1, cmd := ''AB'' @ replicate 18 (CHR 0x00),
                      out := map UART1_Write ''AB''\<rparr>)
       = flag AC (init\<lparr>ac := 1, rx := ''AB''\<rparr>)"
proof -
  let ?s = "init\<lparr>cmd := ''FAN ON'' @ replicate 14 (CHR 0x00)\<rparr>"
  let ?t = "init\<lparr>fan := 1, rx := ''AB'' @ [CHR 0x0D]\<rparr>"
  let ?t' = "init\<lparr>fan := 1, cmd := ''AB'' @ replicate 18 (CHR 0x00),
                      out := map UART1_Write (''AB'' @ [CHR 0x0D])\<rparr>"
  let ?u = "init\<lparr>ac := 1, rx := ''AB''\<rparr>"
  let ?u' = "init\<lparr>ac := 1, cmd := ''AB'' @ replicate 18 (CHR 0x00),
                      out := map UART1_Write ''AB''\<rparr>"
  have c: "flag Fan (ParseCommand ?s) \<noteq> flag Fan ?s"
    by (simp add: ParseCommand_sublist cstr_def sublist_code init_def)
  have r: "read_line ?t = Inr (2, ?t')"
    by (simp add: read_line_closed Let_def is_term_def init_def)
  have b: "read_line ?u = Inl (Blocked ?u')"
    by (simp add: read_line_closed Let_def is_term_def init_def)
  from flags_frame[of Fan ?s] c
  have 1: "\<exists>p v. matched (cstr (cmd ?s)) = Some (p, Fan, v)" by blast
  from flags_frame[of Fan ?t] r have 2: "flag Fan ?t' = flag Fan ?t" by blast
  from flags_frame[of AC ?u] b have 3: "flag AC ?u' = flag AC ?u" by blast
  from c 1 r 2 b 3 show ?thesis by blast
qed

text \<open>
  C7. For every state, the renderer writes \<open>light1\<close> to bit 0, \<open>fan\<close> to bit 1 and
  \<open>ac\<close> to bit 2 of the output register of port B, clears the display, and writes
  \<open>L1:\<close> and \<open>F:\<close> with their ON or OFF on row 1 and \<open>AC:\<close> with its ON or OFF
  on row 2, each according to the current value of its flag; nothing else is emitted.
\<close>

theorem UpdateOutputsAndLCD_renders:
  "out (UpdateOutputsAndLCD s) =
     out s @ [GPIOB_ODR_B 0 (light1 s), GPIOB_ODR_B 1 (fan s), GPIOB_ODR_B 2 (ac s),
              Lcd_Cmd LCD_CLEAR,
              Lcd_Out 1 1 ''L1:'', Lcd_Out 1 4 (if light1 s \<noteq> 0 then ''ON '' else ''OFF''),
              Lcd_Out 1 9 ''F:'', Lcd_Out 1 11 (if fan s \<noteq> 0 then ''ON '' else ''OFF''),
              Lcd_Out 2 1 ''AC:'', Lcd_Out 2 4 (if ac s \<noteq> 0 then ''ON '' else ''OFF'')]"
  by (simp add: UpdateOutputsAndLCD_def emit_def)

theorem UpdateOutputsAndLCD_renders_witness:
  "out (UpdateOutputsAndLCD (init\<lparr>light1 := 1, ac := 1\<rparr>)) =
     [GPIOB_ODR_B 0 1, GPIOB_ODR_B 1 0, GPIOB_ODR_B 2 1,
      Lcd_Cmd LCD_CLEAR,
      Lcd_Out 1 1 ''L1:'', Lcd_Out 1 4 ''ON '',
      Lcd_Out 1 9 ''F:'', Lcd_Out 1 11 ''OFF'',
      Lcd_Out 2 1 ''AC:'', Lcd_Out 2 4 ''ON '']"
  using UpdateOutputsAndLCD_renders[of "init\<lparr>light1 := 1, ac := 1\<rparr>"]
  by (simp add: init_def)

text \<open>
  C8. Every byte read from the serial link is written back to it, terminators
  included: after any input the bytes written to the link are exactly the bytes
  received, in order. Within a pass of the loop the echo of every byte taken in that
  pass, the terminator included, precedes everything else the pass emits; a pass that
  ends waiting has echoed all the bytes it took.
\<close>

theorem echo_every_byte:
  "(\<exists>s'. main input = Blocked s' \<and> rx s' = [] \<and> uart_written (out s') = input)
   \<and> (\<forall>s'. loop_body s = Inr s' \<longrightarrow>
         (\<exists>n es. 0 < n \<and> n \<le> length (rx s) \<and> rx s' = drop n (rx s)
            \<and> out s' = out s @ map UART1_Write (take n (rx s)) @ es \<and> uart_written es = []))
   \<and> (\<forall>e. loop_body s = Inl e \<longrightarrow>
         (\<exists>s'. e = Blocked s' \<and> rx s' = [] \<and> out s' = out s @ map UART1_Write (rx s)))"
proof -
  from main_start[of input] obtain s0 where
    s0: "main input = main_loop s0" "rx s0 = input" "uart_written (out s0) = []"
    by blast
  from main_loop_run[of s0] s0
  have a: "\<exists>s'. main input = Blocked s' \<and> rx s' = [] \<and> uart_written (out s') = input"
    by auto
  have b: "\<forall>s'. loop_body s = Inr s' \<longrightarrow>
         (\<exists>n es. 0 < n \<and> n \<le> length (rx s) \<and> rx s' = drop n (rx s)
            \<and> out s' = out s @ map UART1_Write (take n (rx s)) @ es \<and> uart_written es = [])"
  proof (intro allI impI)
    fix s'
    assume lb: "loop_body s = Inr s'"
    show "\<exists>n es. 0 < n \<and> n \<le> length (rx s) \<and> rx s' = drop n (rx s)
            \<and> out s' = out s @ map UART1_Write (take n (rx s)) @ es \<and> uart_written es = []"
    proof (cases "lines_read (rx s)")
      case Nil
      from loop_body_blocks[OF Nil] lb show ?thesis by auto
    next
      case (Cons line ls)
      from loop_body_steps[OF Cons] lb show ?thesis by auto
    qed
  qed
  have c: "\<forall>e. loop_body s = Inl e \<longrightarrow>
         (\<exists>s'. e = Blocked s' \<and> rx s' = [] \<and> out s' = out s @ map UART1_Write (rx s))"
  proof (intro allI impI)
    fix e
    assume lb: "loop_body s = Inl e"
    show "\<exists>s'. e = Blocked s' \<and> rx s' = [] \<and> out s' = out s @ map UART1_Write (rx s)"
    proof (cases "lines_read (rx s)")
      case Nil
      from loop_body_blocks[OF Nil] lb show ?thesis by auto
    next
      case (Cons line ls)
      from loop_body_steps[OF Cons] lb show ?thesis by auto
    qed
  qed
  from a b c show ?thesis by blast
qed

theorem echo_every_byte_witness:
  "(\<exists>s'. main (''AC ON'' @ [CHR 0x0A] @ ''Z'') = Blocked s' \<and> rx s' = []
          \<and> uart_written (out s') = ''AC ON'' @ [CHR 0x0A] @ ''Z'')
   \<and> loop_body (init\<lparr>rx := ''AC ON'' @ [CHR 0x0A] @ ''Z''\<rparr>)
     = Inr (init\<lparr>rx := ''Z'', ac := 1, cmd := ''AC ON'' @ replicate 15 (CHR 0x00),
                 out := map UART1_Write (''AC ON'' @ [CHR 0x0A])
                   @ [GPIOB_ODR_B 0 0, GPIOB_ODR_B 1 0, GPIOB_ODR_B 2 1, Lcd_Cmd LCD_CLEAR,
                      Lcd_Out 1 1 ''L1:'', Lcd_Out 1 4 ''OFF'', Lcd_Out 1 9 ''F:'',
                      Lcd_Out 1 11 ''OFF'', Lcd_Out 2 1 ''AC:'', Lcd_Out 2 4 ''ON '']\<rparr>)
   \<and> (\<exists>n es. 0 < n \<and> n \<le> length (rx (init\<lparr>rx := ''AC ON'' @ [CHR 0x0A] @ ''Z''\<rparr>))
         \<and> ''Z'' = drop n (rx (init\<lparr>rx := ''AC ON'' @ [CHR 0x0A] @ ''Z''\<rparr>))
         \<and> map UART1_Write (''AC ON'' @ [CHR 0x0A])
              @ [GPIOB_ODR_B 0 0, GPIOB_ODR_B 1 0, GPIOB_ODR_B 2 1, Lcd_Cmd LCD_CLEAR,
                 Lcd_Out 1 1 ''L1:'', Lcd_Out 1 4 ''OFF'', Lcd_Out 1 9 ''F:'',
                 Lcd_Out 1 11 ''OFF'', Lcd_Out 2 1 ''AC:'', Lcd_Out 2 4 ''ON '']
            = out (init\<lparr>rx := ''AC ON'' @ [CHR 0x0A] @ ''Z''\<rparr>)
                @ map UART1_Write (take n (rx (init\<lparr>rx := ''AC ON'' @ [CHR 0x0A] @ ''Z''\<rparr>))) @ es
         \<and> uart_written es = [])"
proof -
  let ?s = "init\<lparr>rx := ''AC ON'' @ [CHR 0x0A] @ ''Z''\<rparr>"
  let ?o = "map UART1_Write (''AC ON'' @ [CHR 0x0A])
                   @ [GPIOB_ODR_B 0 0, GPIOB_ODR_B 1 0, GPIOB_ODR_B 2 1, Lcd_Cmd LCD_CLEAR,
                      Lcd_Out 1 1 ''L1:'', Lcd_Out 1 4 ''OFF'', Lcd_Out 1 9 ''F:'',
                      Lcd_Out 1 11 ''OFF'', Lcd_Out 2 1 ''AC:'', Lcd_Out 2 4 ''ON '']"
  let ?s' = "init\<lparr>rx := ''Z'', ac := 1, cmd := ''AC ON'' @ replicate 15 (CHR 0x00), out := ?o\<rparr>"
  have lb: "loop_body ?s = Inr ?s'"
    by (simp add: loop_body_def read_line_closed Let_def is_term_def init_def
        UpdateOutputsAndLCD_def ParseCommand_sublist cstr_def emit_def sublist_code)
  have r: "rx ?s' = ''Z''" and o: "out ?s' = ?o" by simp_all
  from echo_every_byte[of "''AC ON'' @ [CHR 0x0A] @ ''Z''" ?s] lb
  have "(\<exists>s'. main (''AC ON'' @ [CHR 0x0A] @ ''Z'') = Blocked s' \<and> rx s' = []
          \<and> uart_written (out s') = ''AC ON'' @ [CHR 0x0A] @ ''Z'')
     \<and> (\<exists>n es. 0 < n \<and> n \<le> length (rx ?s) \<and> rx ?s' = drop n (rx ?s)
            \<and> out ?s' = out ?s @ map UART1_Write (take n (rx ?s)) @ es \<and> uart_written es = [])"
    by blast
  then show ?thesis unfolding r o using lb by blast
qed

text \<open>
  C9. No store into \<open>cmd\<close> is out of bounds: neither one run of the line reader nor
  the whole loop ever stops with an out-of-bounds store. The index at which the
  terminating zero is written is at most 19, the buffer keeps its 20 bytes, and the
  string it holds is no longer than that index. The stores of characters stay below
  index 19: the inner loop does not fault even on a buffer of only 19 bytes.
\<close>

theorem stores_in_bounds:
  "(\<forall>k. read_line s \<noteq> Inl (OutOfBounds k))
   \<and> (\<forall>k. main_loop s \<noteq> OutOfBounds k)
   \<and> (\<forall>i s'. read_line s = Inr (i, s') \<longrightarrow>
         i \<le> 19 \<and> length (cmd s') = 20 \<and> cmd s' ! i = CHR 0x00 \<and> length (cstr (cmd s')) \<le> i)
   \<and> (\<forall>i t k. i \<le> 19 \<and> length (cmd t) = 19 \<longrightarrow> read_loop i t \<noteq> Inl (OutOfBounds k))"
proof -
  have a: "\<forall>k. read_line s \<noteq> Inl (OutOfBounds k)"
    by (simp add: read_line_closed Let_def)
  have b: "\<forall>k. main_loop s \<noteq> OutOfBounds k"
    using main_loop_run[of s] by auto
  define st where "st = take 19 (takeWhile (\<lambda>c. \<not> is_term c) (rx s))"
  have len: "length st \<le> 19" unfolding st_def by simp
  have c: "\<forall>i s'. read_line s = Inr (i, s') \<longrightarrow>
         i \<le> 19 \<and> length (cmd s') = 20 \<and> cmd s' ! i = CHR 0x00 \<and> length (cstr (cmd s')) \<le> i"
  proof (intro allI impI)
    fix i s'
    assume "read_line s = Inr (i, s')"
    then have "i = length st \<and> cmd s' = st @ replicate (20 - length st) (CHR 0x00)"
      unfolding st_def by (auto simp add: read_line_closed Let_def split: if_splits)
    then have i: "i = length st" and c: "cmd s' = st @ replicate (20 - length st) (CHR 0x00)"
      by simp_all
    have "length (cstr (cmd s')) \<le> length st"
      unfolding c cstr_padded by (simp add: cstr_def length_takeWhile_le)
    with i c len show "i \<le> 19 \<and> length (cmd s') = 20 \<and> cmd s' ! i = CHR 0x00
        \<and> length (cstr (cmd s')) \<le> i"
      by (simp add: nth_append)
  qed
  have d: "\<forall>i t k. i \<le> 19 \<and> length (cmd t) = 19 \<longrightarrow> read_loop i t \<noteq> Inl (OutOfBounds k)"
  proof (intro allI impI)
    fix i :: nat and t :: state and k :: nat
    assume "i \<le> 19 \<and> length (cmd t) = 19"
    then have "i \<le> 19" "19 \<le> length (cmd t)" by simp_all
    from read_loop_spec[OF this] show "read_loop i t \<noteq> Inl (OutOfBounds k)"
      by (simp add: Let_def)
  qed
  from a b c d show ?thesis by blast
qed

theorem stores_in_bounds_witness:
  "read_line (init\<lparr>rx := ''0123456789ABCDEFGHIJKLMNOP''\<rparr>) =
     Inr (19, init\<lparr>rx := ''JKLMNOP'', cmd := ''0123456789ABCDEFGHI'' @ [CHR 0x00],
                  out := map UART1_Write ''0123456789ABCDEFGHI''\<rparr>)
   \<and> length (''0123456789ABCDEFGHI'' @ [CHR 0x00]) = 20
   \<and> (''0123456789ABCDEFGHI'' @ [CHR 0x00]) ! 19 = CHR 0x00
   \<and> length (cstr (''0123456789ABCDEFGHI'' @ [CHR 0x00])) \<le> 19
   \<and> read_loop 19 (init\<lparr>cmd := replicate 19 (CHR 0x00), rx := ''AB''\<rparr>) \<noteq> Inl (OutOfBounds 19)"
proof -
  let ?s = "init\<lparr>rx := ''0123456789ABCDEFGHIJKLMNOP''\<rparr>"
  let ?s' = "init\<lparr>rx := ''JKLMNOP'', cmd := ''0123456789ABCDEFGHI'' @ [CHR 0x00],
                  out := map UART1_Write ''0123456789ABCDEFGHI''\<rparr>"
  let ?t = "init\<lparr>cmd := replicate 19 (CHR 0x00), rx := ''AB''\<rparr>"
  have r: "read_line ?s = Inr (19, ?s')"
    by (simp add: read_line_closed Let_def is_term_def init_def)
  have t: "(19::nat) \<le> 19 \<and> length (cmd ?t) = 19" by simp
  from stores_in_bounds[of ?s] r
  have "19 \<le> (19::nat) \<and> length (cmd ?s') = 20 \<and> cmd ?s' ! 19 = CHR 0x00
        \<and> length (cstr (cmd ?s')) \<le> 19"
    by blast
  moreover from stores_in_bounds[of ?s] t
  have "read_loop 19 ?t \<noteq> Inl (OutOfBounds 19)" by blast
  ultimately show ?thesis using r by simp
qed

text \<open>
  C10, as the program has it. When several of the six commands occur in the line,
  only the first of them in the check order takes effect: the state after the matcher
  is the state before it with that command's flag set to that command's value. So
  the flag named by a later occurring command is unchanged when it is another flag;
  when it is the same flag, that flag has the first command's value.
\<close>

theorem ParseCommand_first_match:
  "occurring (cstr (cmd s)) = (p, d, v) # rest \<Longrightarrow>
   ParseCommand s = set_flag d v s
   \<and> (\<forall>(q, d', v') \<in> set rest. d' \<noteq> d \<longrightarrow> flag d' (ParseCommand s) = flag d' s)"
  by (auto simp add: ParseCommand_matched occurring_matched flag_set_flag)

theorem ParseCommand_first_match_witness:
  "occurring (cstr (cmd (init\<lparr>cmd := ''AC ON FAN ON'' @ replicate 8 (CHR 0x00)\<rparr>)))
     = [(''FAN ON'', Fan, 1), (''AC ON'', AC, 1)]
   \<and> ParseCommand (init\<lparr>cmd := ''AC ON FAN ON'' @ replicate 8 (CHR 0x00)\<rparr>)
     = init\<lparr>cmd := ''AC ON FAN ON'' @ replicate 8 (CHR 0x00), fan := 1\<rparr>
   \<and> ac (ParseCommand (init\<lparr>cmd := ''AC ON FAN ON'' @ replicate 8 (CHR 0x00)\<rparr>)) = 0"
proof -
  let ?s = "init\<lparr>cmd := ''AC ON FAN ON'' @ replicate 8 (CHR 0x00)\<rparr>"
  have c: "cstr (cmd ?s) = ''AC ON FAN ON''" by (simp add: cstr_def)
  have h: "occurring (cstr (cmd ?s)) = (''FAN ON'', Fan, 1) # [(''AC ON'', AC, 1)]"
    unfolding c by (simp add: occurring_def commands_def sublist_code)
  from ParseCommand_first_match[OF h] h show ?thesis
    by (simp add: init_def)
qed

text \<open>
  A line with two commands for the same flag, as the reader delivers it from the
  bytes \<open>AC ON AC OFF\<close> and a carriage return: the later command names \<open>ac\<close>,
  and \<open>ac\<close> goes from 0 to 1.
\<close>

theorem later_match_names_same_flag:
  "occurring (cstr (cmd (init\<lparr>cmd := ''AC ON AC OFF'' @ replicate 8 (CHR 0x00)\<rparr>)))
     = [(''AC ON'', AC, 1), (''AC OFF'', AC, 0)]
   \<and> ac (init\<lparr>cmd := ''AC ON AC OFF'' @ replicate 8 (CHR 0x00)\<rparr>) = 0
   \<and> ac (ParseCommand (init\<lparr>cmd := ''AC ON AC OFF'' @ replicate 8 (CHR 0x00)\<rparr>)) = 1
   \<and> read_line (init\<lparr>rx := ''AC ON AC OFF'' @ [CHR 0x0D]\<rparr>)
       = Inr (12, init\<lparr>cmd := ''AC ON AC OFF'' @ replicate 8 (CHR 0x00),
                       out := map UART1_Write (''AC ON AC OFF'' @ [CHR 0x0D])\<rparr>)"
  by (simp add: occurring_def commands_def ParseCommand_sublist cstr_def sublist_code init_def
        read_line_closed Let_def is_term_def)

end
